theory Spec2Isabelle
  imports Main "HOL-Library.Sublist"
begin

section \<open>Python strings\<close>

text \<open>
  A Python \<open>str\<close> is modelled as a HOL \<open>string\<close>; a \<open>char\<close> stands for a code point
  below 256.  Comparison of characters is equality, so every test on strings below is
  case-sensitive, as in Python.
\<close>

text \<open>The ANSI escape codes of the script; \<open>\033\<close> is the character with code 27.\<close>

definition ESC :: char where
  "ESC = CHR 0x1B"

definition RED :: string where
  "RED = ESC # ''[31m''"

definition GREEN :: string where
  "GREEN = ESC # ''[32m''"

definition BLUE :: string where
  "BLUE = ESC # ''[34m''"

definition BOLD :: string where
  "BOLD = ESC # ''[1m''"

definition RESET :: string where
  "RESET = ESC # ''[0m''"

definition TEXTWIDTH :: nat where
  "TEXTWIDTH = 80"

definition NL :: char where
  "NL = CHR 0x0A"

text \<open>
  \<open>str.isspace\<close> on the code points below 256: tab, line feed, vertical tab, form feed,
  carriage return, the separators 28 to 31, space, NEL (133) and the no-break space (160).
\<close>

definition isspace :: "char \<Rightarrow> bool" where
  "isspace c = (of_char c \<in> {9, 10, 11, 12, 13, 28, 29, 30, 31, 32, 133, 160 :: nat})"

text \<open>\<open>s.strip()\<close>: drop the leading and the trailing whitespace.\<close>

definition strip :: "string \<Rightarrow> string" where
  "strip s = rev (dropWhile isspace (rev (dropWhile isspace s)))"

text \<open>
  \<open>s.split("\n")\<close>: cut at every line feed; the result always has at least one element
  (the empty string gives a list holding one empty string).
\<close>

fun split_nl :: "string \<Rightarrow> string list" where
  "split_nl [] = [[]]"
| "split_nl (c # cs) =
     (if c = NL then [] # split_nl cs
      else (case split_nl cs of
              [] \<Rightarrow> [[c]]
            | w # ws \<Rightarrow> (c # w) # ws))"

text \<open>
  \<open>word in line\<close>: \<open>word\<close> occurs in \<open>line\<close> as a contiguous run of characters; the
  empty word occurs in every line.
\<close>

fun str_contains :: "string \<Rightarrow> string \<Rightarrow> bool" where
  "str_contains [] word = (word = [])"
| "str_contains (c # cs) word = (prefix word (c # cs) \<or> str_contains cs word)"

text \<open>
  \<open>s.replace(old, new)\<close>: scanning from the left, every occurrence of \<open>old\<close> that does not
  overlap an occurrence already replaced becomes \<open>new\<close>.  For the empty \<open>old\<close> Python
  puts \<open>new\<close> before every character and at the end.
\<close>

function replace_from :: "string \<Rightarrow> string \<Rightarrow> string \<Rightarrow> string" where
  "replace_from [] old new = []"
| "replace_from (c # cs) old new =
     (if old \<noteq> [] \<and> prefix old (c # cs)
      then new @ replace_from (drop (length old) (c # cs)) old new
      else c # replace_from cs old new)"
  by pat_completeness auto
termination
  by (relation "measure (\<lambda>(s, old, new). length s)") (auto simp: neq_Nil_conv)

definition replace :: "string \<Rightarrow> string \<Rightarrow> string \<Rightarrow> string" where
  "replace s old new =
     (if old = [] then new @ concat (map (\<lambda>c. c # new) s) else replace_from s old new)"

text \<open>\<open>str(n)\<close> for a non-negative integer: its decimal digits.\<close>

definition digit :: "nat \<Rightarrow> char" where
  "digit d = char_of (48 + d)"

fun str_nat :: "nat \<Rightarrow> string" where
  "str_nat n = (if n < 10 then [digit n] else str_nat (n div 10) @ [digit (n mod 10)])"

declare str_nat.simps [simp del]

text \<open>
  The format specification \<open>{n:{width}}\<close> for an integer: right-aligned, padded on the
  left with spaces to at least \<open>width\<close> characters, never cut.
\<close>

definition format_width :: "nat \<Rightarrow> nat \<Rightarrow> string" where
  "format_width n width = replicate (width - length (str_nat n)) CHR '' '' @ str_nat n"

section \<open>Errors\<close>

text \<open>
  Every \<open>raise\<close> of the script is a value.  \<open>SpellcheckError\<close> carries the site that raised
  it in place of the text of the message; \<open>IndexError\<close> and \<open>OSError\<close> are the built-in
  exceptions of the two operations of \<open>print_words_context\<close> that can fail.
\<close>

datatype message =
    DictionaryNotString
  | DictionaryMissing
  | SpellcheckFailed string "string list" string
  | NonExistentFile string
  | ToHtmlFailed string
  | ToMarkdownFailed string

datatype error =
    SpellcheckError message
  | IndexError
  | OSError

section \<open>The context reporter: \<open>print_words_context\<close>\<close>

text \<open>
  The inner loop over \<open>words\<close> for one line.  The test \<open>word in line\<close> reads the line as
  it is in the file, the replacement works on \<open>new_content_line\<close>, the copy that already
  carries the markers of the words before.
\<close>

fun highlight_words :: "string \<Rightarrow> nat \<Rightarrow> string list \<Rightarrow> nat set \<times> string \<Rightarrow> nat set \<times> string" where
  "highlight_words line index [] (match_lines, new_content_line) =
     (match_lines, new_content_line)"
| "highlight_words line index (word # words) (match_lines, new_content_line) =
     (if str_contains line word
      then highlight_words line index words
             (insert index match_lines, replace new_content_line word (RED @ word @ RESET))
      else highlight_words line index words (match_lines, new_content_line))"

text \<open>
  The outer loop over \<open>enumerate(content_lines)\<close>.  The list is assigned at the index
  just read, so every \<open>line\<close> the loop sees is a line of the file, and the index is
  always inside the list.
\<close>

fun highlight_lines ::
  "string list \<Rightarrow> (nat \<times> string) list \<Rightarrow> nat set \<times> string list \<Rightarrow> nat set \<times> string list" where
  "highlight_lines words [] (match_lines, content_lines) = (match_lines, content_lines)"
| "highlight_lines words ((index, line) # rest) (match_lines, content_lines) =
     (case highlight_words line index words (match_lines, content_lines ! index) of
        (match_lines', new_content_line) \<Rightarrow>
          highlight_lines words rest (match_lines', content_lines[index := new_content_line]))"

text \<open>
  The second loop: what one match line adds to \<open>print_lines\<close>.  The comparison with
  \<open>len(content_lines) - 1\<close> is on integers, as in Python.
\<close>

definition context_of :: "nat \<Rightarrow> nat \<Rightarrow> nat set" where
  "context_of n match_line =
     (if match_line > 0 then {match_line - 1} else {}) \<union>
     (if int match_line < int n - 1 then {match_line + 1} else {}) \<union>
     {match_line}"

definition print_lines_of :: "nat \<Rightarrow> nat set \<Rightarrow> nat set" where
  "print_lines_of n match_lines = (\<Union>match_line\<in>match_lines. context_of n match_line)"

text \<open>The two \<open>print\<close> calls of the last loop, as the text they write.\<close>

definition separator :: "nat \<Rightarrow> string" where
  "separator line_number_width = BLUE @ replicate line_number_width CHR ''-'' @ RESET @ [NL]"

definition context_line :: "nat \<Rightarrow> nat \<Rightarrow> string \<Rightarrow> string" where
  "context_line line_number_width print_line content =
     BLUE @ (format_width (print_line + 1) line_number_width @ '':'') @ RESET @ '' '' @ content"

text \<open>
  The last loop, over \<open>sorted(print_lines)\<close>; the result is the list of the texts
  printed.  Reading \<open>content_lines[print_line]\<close> beyond the list raises \<open>IndexError\<close>.
\<close>

fun print_loop :: "nat \<Rightarrow> string list \<Rightarrow> nat \<Rightarrow> nat list \<Rightarrow> error + string list" where
  "print_loop line_number_width content_lines last_print_line [] = Inr []"
| "print_loop line_number_width content_lines last_print_line (print_line # rest) =
     (if print_line < length content_lines then
        (case print_loop line_number_width content_lines print_line rest of
           Inl e \<Rightarrow> Inl e
         | Inr out \<Rightarrow>
             Inr ((if int print_line - int last_print_line > 1
                   then [separator line_number_width] else []) @
                  [context_line line_number_width print_line (content_lines ! print_line)] @
                  out))
      else Inl IndexError)"

text \<open>
  The body of \<open>print_words_context\<close> after \<open>f.readlines()\<close>, on the lines read
  (each with its line feed).  \<open>sorted(print_lines)[0]\<close> raises \<open>IndexError\<close> on the
  empty list.
\<close>

definition words_context :: "string list \<Rightarrow> string list \<Rightarrow> error + string list" where
  "words_context file_lines words =
     (case highlight_lines words (enumerate 0 file_lines) ({}, file_lines) of
        (match_lines, content_lines) \<Rightarrow>
          (let print_lines = print_lines_of (length content_lines) match_lines in
           case sorted_list_of_set print_lines of
             [] \<Rightarrow> Inl IndexError
           | last_print_line # _ \<Rightarrow>
               (let line_number_width = length (str_nat (length content_lines + 1)) in
                case print_loop line_number_width content_lines last_print_line
                       (sorted_list_of_set print_lines) of
                  Inl e \<Rightarrow> Inl e
                | Inr out \<Rightarrow> Inr (out @ [[NL]]))))"

section \<open>The collaborators\<close>

text \<open>
  What BeautifulSoup builds from the HTML: tags with their attributes (the value of a
  many-valued attribute such as \<open>class\<close> is its list of tokens) and children, text, and
  the strings \<open>get_text\<close> leaves out (comments, declarations).
\<close>

datatype node =
    Tag string "(string \<times> string list) list" "node list"
  | Text string
  | Comment string

text \<open>
  The programs and libraries the script calls are parameters: the expansion of the glob
  pattern, the test for a path, the two runs of pandoc and the run of aspell (\<open>None\<close>,
  or \<open>Inl\<close> with the error stream, for a non-zero exit status, which \<open>check=True\<close>
  turns into \<open>CalledProcessError\<close>), BeautifulSoup's parser and serialiser,
  \<open>open(...).readlines()\<close> (\<open>None\<close> when the file cannot be read),
  \<open>textwrap.fill\<close>, and the hashes of the strings, which decide the order in which a
  Python \<open>set\<close> of strings is iterated.
\<close>

record env =
  glob :: "string \<Rightarrow> string list"
  path_exists :: "string \<Rightarrow> bool"
  pandoc_to_html :: "string \<Rightarrow> string option"
  html_parser :: "string \<Rightarrow> node list"
  soup_str :: "node list \<Rightarrow> string"
  pandoc_to_markdown :: "string \<Rightarrow> string option"
  aspell :: "string list \<Rightarrow> string \<Rightarrow> string + string"
  readlines :: "string \<Rightarrow> string list option"
  fill :: "string \<Rightarrow> nat \<Rightarrow> string"
  str_hash :: "string \<Rightarrow> nat"

section \<open>The content pruner: \<open>prune_content\<close>\<close>

text \<open>\<open>tag.decompose()\<close> for every tag that \<open>find_all\<close> selects: the tag and all below it go.\<close>

fun decompose_all :: "(string \<Rightarrow> (string \<times> string list) list \<Rightarrow> bool) \<Rightarrow> node \<Rightarrow> node list" where
  "decompose_all sel (Tag name attrs children) =
     (if sel name attrs then []
      else [Tag name attrs (concat (map (decompose_all sel) children))])"
| "decompose_all sel (Text s) = [Text s]"
| "decompose_all sel (Comment s) = [Comment s]"

definition is_code :: "string \<Rightarrow> (string \<times> string list) list \<Rightarrow> bool" where
  "is_code name attrs = (name = ''code'')"

definition is_source_code_div :: "string \<Rightarrow> (string \<times> string list) list \<Rightarrow> bool" where
  "is_source_code_div name attrs =
     (name = ''div'' \<and> (case map_of attrs ''class'' of
                          None \<Rightarrow> False
                        | Some tokens \<Rightarrow> ''sourceCode'' \<in> set tokens))"

text \<open>\<open>tag.get_text()\<close>: the text below the tag, in document order.\<close>

fun get_text :: "node \<Rightarrow> string" where
  "get_text (Tag name attrs children) = concat (map get_text children)"
| "get_text (Text s) = s"
| "get_text (Comment s) = []"

text \<open>\<open>a_tag.replace_with(a_tag.get_text())\<close> for every \<open>a\<close> tag of the document.\<close>

fun flatten_links :: "node \<Rightarrow> node" where
  "flatten_links (Tag name attrs children) =
     (if name = ''a'' then Text (get_text (Tag name attrs children))
      else Tag name attrs (map flatten_links children))"
| "flatten_links (Text s) = Text s"
| "flatten_links (Comment s) = Comment s"

text \<open>
  \<open>re.sub(r"https://[\S]*", "", s)\<close>: from the left, every \<open>https://\<close> goes together
  with the characters after it up to the next whitespace.
\<close>

function sub_https :: "string \<Rightarrow> string" where
  "sub_https [] = []"
| "sub_https (c # cs) =
     (if prefix ''https://'' (c # cs)
      then sub_https (dropWhile (\<lambda>x. \<not> isspace x) (drop 8 (c # cs)))
      else c # sub_https cs)"
  by pat_completeness auto
termination
  by (relation "measure length")
     (auto intro: le_less_trans [OF length_dropWhile_le])

text \<open>
  The three loops over the tree (lines 266 to 273): the \<open>code\<close> tags go, then the
  \<open>div\<close> tags of class \<open>sourceCode\<close>, then every \<open>a\<close> tag becomes its text.  Where
  selected tags are nested, the outermost decides.
\<close>

definition prune_soup :: "node list \<Rightarrow> node list" where
  "prune_soup soup =
     map flatten_links
       (concat (map (decompose_all is_source_code_div)
          (concat (map (decompose_all is_code) soup))))"

definition prune_content :: "env \<Rightarrow> string \<Rightarrow> error + string" where
  "prune_content env filepath =
     (if \<not> path_exists env filepath then Inl (SpellcheckError (NonExistentFile filepath))
      else
        (case pandoc_to_html env filepath of
           None \<Rightarrow> Inl (SpellcheckError (ToHtmlFailed filepath))
         | Some stdout \<Rightarrow>
             (let html_version = strip stdout;
                  soup = prune_soup (html_parser env html_version);
                  pruned_html = soup_str env soup;
                  pruned_html = sub_https pruned_html
              in case pandoc_to_markdown env pruned_html of
                   None \<Rightarrow> Inl (SpellcheckError (ToMarkdownFailed filepath))
                 | Some pruned_markdown \<Rightarrow> Inr pruned_markdown)))"

section \<open>The script: \<open>main\<close>\<close>

record CheckedFile =
  filepath :: string
  misspelled_words :: "string list"

text \<open>
  A value of a command line argument as \<open>main\<close> reads it: \<open>None\<close>, a string, or any
  other object, of which the script uses only whether it is true and, in a message, its
  \<open>str\<close>.
\<close>

datatype pyvalue =
    PyNone
  | PyStr string
  | PyObject bool string

fun truthy :: "pyvalue \<Rightarrow> bool" where
  "truthy PyNone = False"
| "truthy (PyStr s) = (s \<noteq> [])"
| "truthy (PyObject b s) = b"

fun str_value :: "pyvalue \<Rightarrow> string" where
  "str_value PyNone = ''None''"
| "str_value (PyStr s) = s"
| "str_value (PyObject b s) = s"

record args =
  files :: string
  document_language :: string
  dictionary_path :: pyvalue

text \<open>\<open>wrap_print(text, width, end)\<close>; the defaults are \<open>TEXTWIDTH\<close> and two line feeds.\<close>

definition wrap_print :: "env \<Rightarrow> string \<Rightarrow> nat \<Rightarrow> string \<Rightarrow> string" where
  "wrap_print env text width end = fill env text width @ end"

text \<open>
  The command line for aspell (lines 80 to 102): the dictionary is looked at here, inside
  the loop over the files, after the file has been pruned.
\<close>

definition spellcheck_cmd :: "env \<Rightarrow> args \<Rightarrow> error + string list" where
  "spellcheck_cmd env a =
     (let cmd = [''aspell'', ''--home-dir'', ''.'', ''--mode'', ''markdown'', ''--lang'',
                 document_language a]
      in if truthy (dictionary_path a) then
           (case dictionary_path a of
              PyStr d \<Rightarrow>
                if \<not> path_exists env d then Inl (SpellcheckError DictionaryMissing)
                else Inr (cmd @ [''--personal'', d] @ [''list''])
            | _ \<Rightarrow> Inl (SpellcheckError DictionaryNotString))
         else Inr (cmd @ [''list'']))"

text \<open>The body of the loop up to \<open>result.stdout\<close>: prune, build the command, run aspell.\<close>

definition run_spellcheck :: "env \<Rightarrow> args \<Rightarrow> string \<Rightarrow> error + string" where
  "run_spellcheck env a path =
     (case prune_content env path of
        Inl e \<Rightarrow> Inl e
      | Inr pruned_content \<Rightarrow>
          (case spellcheck_cmd env a of
             Inl e \<Rightarrow> Inl e
           | Inr cmd \<Rightarrow>
               (case aspell env cmd pruned_content of
                  Inl stderr \<Rightarrow> Inl (SpellcheckError (SpellcheckFailed path cmd stderr))
                | Inr stdout \<Rightarrow> Inr stdout)))"

text \<open>The loop over \<open>filepaths\<close>, with \<open>good_files\<close> and \<open>bad_files\<close> as its state.\<close>

fun check_files ::
  "env \<Rightarrow> args \<Rightarrow> string list \<Rightarrow> CheckedFile list \<Rightarrow> CheckedFile list \<Rightarrow>
   error + CheckedFile list \<times> CheckedFile list" where
  "check_files env a [] good_files bad_files = Inr (good_files, bad_files)"
| "check_files env a (path # filepaths) good_files bad_files =
     (case run_spellcheck env a path of
        Inl e \<Rightarrow> Inl e
      | Inr stdout \<Rightarrow>
          (let standard_out = strip stdout in
           if standard_out \<noteq> [] then
             check_files env a filepaths good_files
               (bad_files @
                [\<lparr>filepath = path, misspelled_words = map strip (split_nl standard_out)\<rparr>])
           else
             check_files env a filepaths
               (good_files @ [\<lparr>filepath = path, misspelled_words = []\<rparr>]) bad_files))"

text \<open>\<open>print_words_context(filepath, words)\<close>: read the lines, then report.\<close>

definition print_words_context :: "env \<Rightarrow> string \<Rightarrow> string list \<Rightarrow> error + string list" where
  "print_words_context env path words =
     (case readlines env path of
        None \<Rightarrow> Inl OSError
      | Some file_lines \<Rightarrow> words_context file_lines words)"

text \<open>Lines 132 to 143: the summary of the clean files.\<close>

definition print_good_files :: "env \<Rightarrow> CheckedFile list \<Rightarrow> CheckedFile list \<Rightarrow> string list" where
  "print_good_files env good_files bad_files =
     (if good_files \<noteq> [] then
        [if length good_files > 1
         then wrap_print env (''The following files are free from spelling errors:'' @ [NL])
                TEXTWIDTH [NL, NL]
         else wrap_print env (''The following file is free from spelling errors:'' @ [NL])
                TEXTWIDTH [NL, NL]] @
        map (\<lambda>good_file. ''  - '' @ filepath good_file @ [NL]) good_files @
        [[NL]] @
        (if bad_files = []
         then [GREEN @ ''All checked files are free from misspellings!'' @ RESET @ [NL]]
         else [])
      else [])"

text \<open>
  \<open>for bad_word in set(words)\<close>: the set holds every word of the list once, and the loop
  visits its elements in the order of the hash table.  The model takes the words without
  their repetitions and orders them by their hashes, which the environment gives: every
  order of the distinct words is the order of some hashes.
\<close>

definition iterate_set :: "env \<Rightarrow> string list \<Rightarrow> string list" where
  "iterate_set env words = sort_key (str_hash env) (remdups words)"

text \<open>The two messages around the context of a bad file, and the line for one word.\<close>

definition context_message :: "env \<Rightarrow> CheckedFile \<Rightarrow> string" where
  "context_message env bad_file =
     wrap_print env
       (''The file '' @ BOLD @ filepath bad_file @ RESET @ '' has potentially '' @
        ''misspelled words, highlighted in their context here:'')
       TEXTWIDTH [NL, NL]"

definition words_message :: "env \<Rightarrow> string" where
  "words_message env =
     wrap_print env
       (''All occurences of the detected potential misspellings are '' @
        ''highlighted, but code and the link part of markdown links '' @
        ''do not actually trigger the spellcheck. The potentially '' @
        ''misspelled words are:'')
       TEXTWIDTH [NL, NL]"

definition word_line :: "string \<Rightarrow> string" where
  "word_line bad_word = ''  - '' @ RED @ bad_word @ RESET @ [NL]"

text \<open>Lines 151 to 164: the report of one bad file.\<close>

definition print_bad_file :: "env \<Rightarrow> CheckedFile \<Rightarrow> error + string list" where
  "print_bad_file env bad_file =
     (case print_words_context env (filepath bad_file) (misspelled_words bad_file) of
        Inl e \<Rightarrow> Inl e
      | Inr context \<Rightarrow>
          Inr ([context_message env bad_file] @
               context @
               [words_message env] @
               map word_line (iterate_set env (misspelled_words bad_file)) @
               [[NL]]))"

fun print_bad_files :: "env \<Rightarrow> CheckedFile list \<Rightarrow> error + string list" where
  "print_bad_files env [] = Inr []"
| "print_bad_files env (bad_file # rest) =
     (case print_bad_file env bad_file of
        Inl e \<Rightarrow> Inl e
      | Inr out \<Rightarrow>
          (case print_bad_files env rest of
             Inl e \<Rightarrow> Inl e
           | Inr out' \<Rightarrow> Inr (out @ out')))"

text \<open>Lines 132 to 178: the report and the exit code.\<close>

definition report :: "env \<Rightarrow> args \<Rightarrow> CheckedFile list \<Rightarrow> CheckedFile list \<Rightarrow> error + string list \<times> int" where
  "report env a good_files bad_files =
     (if bad_files \<noteq> [] then
        (case print_bad_files env bad_files of
           Inl e \<Rightarrow> Inl e
         | Inr out \<Rightarrow>
             Inr (print_good_files env good_files bad_files @
                  [wrap_print env
                     (''Found '' @ BOLD @ str_nat (length bad_files) @ RESET @
                      '' files with potentially misspelled '' @ ''words.'')
                     TEXTWIDTH [NL, NL]] @
                  out @
                  [wrap_print env
                     (''If you think any word marked as misspelled is actually correct in your '' @
                      ''chosen langauge, please update your local dictionary at:'')
                     TEXTWIDTH [NL, NL],
                   wrap_print env (str_value (dictionary_path a)) TEXTWIDTH [NL, NL],
                   wrap_print env
                     (''If the word in question is more 'inline code' than natural language, you '' @
                      ''can circumvent spellchecking by using backticks (`) since inline code is '' @
                      ''not spellchecked.'')
                     TEXTWIDTH [NL]],
                  1))
      else Inr (print_good_files env good_files bad_files, 0))"

definition main :: "env \<Rightarrow> args \<Rightarrow> error + string list \<times> int" where
  "main env a =
     (case check_files env a (glob env (files a)) [] [] of
        Inl e \<Rightarrow> Inl e
      | Inr (good_files, bad_files) \<Rightarrow>
          (case report env a good_files bad_files of
             Inl e \<Rightarrow> Inl e
           | Inr (out, code) \<Rightarrow>
               Inr (wrap_print env (BOLD @ ''RUNNING SPELLCHECK'' @ RESET) TEXTWIDTH [NL, NL] # out,
                    code)))"

text \<open>
  The last lines of the script: \<open>sys.exit(main(args))\<close>, with \<open>SpellcheckError\<close> caught
  and turned into the exit status 1.  Any other exception leaves the script uncaught, and
  the interpreter ends with the exit status 1 as well.
\<close>

definition exit_status :: "env \<Rightarrow> args \<Rightarrow> int" where
  "exit_status env a =
     (case main env a of
        Inr (out, code) \<Rightarrow> code
      | Inl (SpellcheckError m) \<Rightarrow> 1
      | Inl IndexError \<Rightarrow> 1
      | Inl OSError \<Rightarrow> 1)"

section \<open>Notions used in the statements\<close>

text \<open>A line is flagged when one of the words occurs in it.\<close>

definition flagged :: "string list \<Rightarrow> string \<Rightarrow> bool" where
  "flagged words line = (\<exists>word\<in>set words. str_contains line word)"

text \<open>The copy of a line that the inner loop of the reporter leaves in \<open>content_lines\<close>.\<close>

definition highlight :: "string list \<Rightarrow> string \<Rightarrow> string" where
  "highlight words line = snd (highlight_words line 0 words ({}, line))"

text \<open>The two sets of the reporter, for the lines of a file and the words.\<close>

definition match_lines_of :: "string list \<Rightarrow> string list \<Rightarrow> nat set" where
  "match_lines_of file_lines words =
     fst (highlight_lines words (enumerate 0 file_lines) ({}, file_lines))"

definition print_lines :: "string list \<Rightarrow> string list \<Rightarrow> nat set" where
  "print_lines file_lines words =
     print_lines_of (length file_lines) (match_lines_of file_lines words)"

text \<open>The width of the line numbers that the reporter computes for a file.\<close>

definition line_number_width :: "string list \<Rightarrow> nat" where
  "line_number_width file_lines = length (str_nat (length file_lines + 1))"

text \<open>
  The hyperlinks of a tree, each with its visible text and its target, the value of
  \<open>href\<close>.
\<close>

definition target :: "(string \<times> string list) list \<Rightarrow> string" where
  "target attrs = (case map_of attrs ''href'' of None \<Rightarrow> [] | Some tokens \<Rightarrow> concat tokens)"

fun links :: "node \<Rightarrow> (string \<times> string) list" where
  "links (Tag name attrs children) =
     (if name = ''a'' then [(get_text (Tag name attrs children), target attrs)]
      else concat (map links children))"
| "links (Text s) = []"
| "links (Comment s) = []"



text \<open>The engine's output is empty or whitespace only.\<close>

definition whitespace_only :: "string \<Rightarrow> bool" where
  "whitespace_only s = (\<forall>c\<in>set s. isspace c)"

text \<open>A file whose spellcheck ran and gave such an output.\<close>

definition clean :: "env \<Rightarrow> args \<Rightarrow> string \<Rightarrow> bool" where
  "clean env a path =
     (case run_spellcheck env a path of Inl e \<Rightarrow> False | Inr stdout \<Rightarrow> whitespace_only stdout)"

text \<open>What the loop of \<open>main\<close> stores for a file whose engine output is \<open>stdout\<close>.\<close>

definition stored_words :: "env \<Rightarrow> args \<Rightarrow> string \<Rightarrow> string list" where
  "stored_words env a path =
     (case run_spellcheck env a path of
        Inl e \<Rightarrow> []
      | Inr stdout \<Rightarrow> map strip (split_nl (strip stdout)))"

section \<open>An environment to run the script in\<close>

text \<open>
  The files that the pattern matches are given with their lines, the other paths that
  exist by their names, and the engine as a function of its input.  The converter hands
  the text through unchanged, \<open>fill\<close> leaves the text as it is, and the hash of a string
  is its length.
\<close>

definition sample_env ::
  "(string \<times> string list) list \<Rightarrow> string list \<Rightarrow> (string \<Rightarrow> string) \<Rightarrow> env" where
  "sample_env fs others engine =
     \<lparr>glob = (\<lambda>pattern. map fst fs),
      path_exists = (\<lambda>path. path \<in> set (map fst fs @ others)),
      pandoc_to_html = (\<lambda>path. map_option concat (map_of fs path)),
      html_parser = (\<lambda>html. [Text html]),
      soup_str = (\<lambda>soup. concat (map get_text soup)),
      pandoc_to_markdown = Some,
      aspell = (\<lambda>cmd input. Inr (engine input)),
      readlines = map_of fs,
      fill = (\<lambda>text width. text),
      str_hash = length\<rparr>"

definition sample_args :: "string \<Rightarrow> args" where
  "sample_args d = \<lparr>files = ''*.md'', document_language = ''en_US'', dictionary_path = PyStr d\<rparr>"

text \<open>
  The file of the scenario of the specification, and an engine that flags \<open>wrold\<close> once
  for every line of its input that holds it.
\<close>

definition wrold_file :: "string list" where
  "wrold_file = [''Hello wrold.'' @ [NL], ''This is fine.'' @ [NL], ''Bye.'' @ [NL]]"

definition fine_file :: "string list" where
  "fine_file = [''This is fine.'' @ [NL]]"

definition wrold_engine :: "string \<Rightarrow> string" where
  "wrold_engine input =
     concat (map (\<lambda>line. if str_contains line ''wrold'' then ''wrold'' @ [NL] else [])
               (split_nl input))"

text \<open>A file with the word on its first and on its last line, two lines apart from the rest.\<close>

definition gap_file :: "string list" where
  "gap_file =
     [''wrold one'' @ [NL], ''two'' @ [NL], ''three'' @ [NL], ''four'' @ [NL], ''five'' @ [NL],
      ''six wrold'' @ [NL]]"







text \<open>Two files for one run, the first with the word on two lines.\<close>

definition two_files :: "(string \<times> string list) list" where
  "two_files = [(''a.md'', gap_file), (''b.md'', fine_file)]"

text \<open>An environment in which the engine fails on the second of two files.\<close>

definition failing_env :: env where
  "failing_env =
     (sample_env [(''b.md'', fine_file), (''a.md'', wrold_file)] [''dict.txt''] wrold_engine)
       \<lparr>aspell := (\<lambda>cmd input. if str_contains input ''wrold''
                                 then Inl ''aspell failed'' else Inr [])\<rparr>"

text \<open>An environment in which the first run of the converter fails.\<close>

definition no_converter_env :: env where
  "no_converter_env =
     (sample_env [(''a.md'', wrold_file)] [] wrold_engine)\<lparr>pandoc_to_html := (\<lambda>path. None)\<rparr>"

text \<open>A file of nine lines.\<close>

definition nine_lines :: "string list" where
  "nine_lines = (''wrold'' @ [NL]) # replicate 8 (''ok'' @ [NL])"

section \<open>Properties of the strings\<close>

text \<open>The test \<open>word in line\<close> is containment as a contiguous sublist.\<close>

lemma str_contains_sublist: "str_contains line word \<longleftrightarrow> sublist word line"
  by (induction line) (auto simp: sublist_Cons_right)

section \<open>Properties of the context reporter\<close>

text \<open>The two loops that mark the lines, in closed form.\<close>

lemma highlight_words_fst:
  "fst (highlight_words line index words (M, c)) = (if flagged words line then insert index M else M)"
  by (induction words arbitrary: M c) (auto simp: flagged_def)

lemma highlight_words_snd:
  "snd (highlight_words line index words (M, c)) = snd (highlight_words line index' words (M', c))"
  by (induction words arbitrary: M M' c) auto

lemma highlight_words_eq:
  "highlight_words line index words (M, line) =
     (if flagged words line then insert index M else M, highlight words line)"
  using highlight_words_fst [of line index words M line]
    highlight_words_snd [of line index words M line 0 "{}"]
  by (simp add: highlight_def prod_eq_iff)

lemma shifted_indices:
  "(if P x then insert n M else M) \<union> {Suc n + j | j. j < length xs \<and> P (xs ! j)} =
   M \<union> {n + j | j. j < length (x # xs) \<and> P ((x # xs) ! j)}" (is "?L = ?R")
proof (rule set_eqI)
  fix k
  show "k \<in> ?L \<longleftrightarrow> k \<in> ?R"
  proof
    assume "k \<in> ?L"
    then consider "k \<in> M" | "P x" "k = n"
      | j where "k = Suc n + j" "j < length xs" "P (xs ! j)"
      by (auto split: if_splits)
    then show "k \<in> ?R"
    proof cases
      case 1 then show ?thesis by simp
    next
      case 2 then show ?thesis by (auto intro: exI [of _ 0])
    next
      case 3 then show ?thesis by (auto intro: exI [of _ "Suc j"])
    qed
  next
    assume "k \<in> ?R"
    then consider "k \<in> M" | j where "k = n + j" "j < Suc (length xs)" "P ((x # xs) ! j)"
      by auto
    then show "k \<in> ?L"
    proof cases
      case 1 then show ?thesis by simp
    next
      case 2 then show ?thesis by (cases j) auto
    qed
  qed
qed

lemma highlight_lines_gen:
  "highlight_lines words (enumerate (length pre) xs) (M, pre @ xs @ post) =
     (M \<union> {length pre + j | j. j < length xs \<and> flagged words (xs ! j)},
      pre @ map (highlight words) xs @ post)"
proof (induction xs arbitrary: pre M)
  case Nil
  then show ?case by simp
next
  case (Cons x xs)
  let ?M = "if flagged words x then insert (length pre) M else M"
  let ?pre = "pre @ [highlight words x]"
  have "highlight_lines words (enumerate (length ?pre) xs) (?M, ?pre @ xs @ post) =
     (?M \<union> {length ?pre + j | j. j < length xs \<and> flagged words (xs ! j)},
      ?pre @ map (highlight words) xs @ post)"
    by (rule Cons.IH)
  then show ?case
    using shifted_indices [of "flagged words" x "length pre" M xs]
    by (simp add: highlight_words_eq nth_append list_update_append)
qed

lemma highlight_lines_eq:
  "highlight_lines words (enumerate 0 file_lines) ({}, file_lines) =
     ({i. i < length file_lines \<and> flagged words (file_lines ! i)}, map (highlight words) file_lines)"
  using highlight_lines_gen [of words "[]" file_lines "{}" "[]"] by simp

lemma match_lines_of_eq:
  "match_lines_of file_lines words = {i. i < length file_lines \<and> flagged words (file_lines ! i)}"
  by (simp add: match_lines_of_def highlight_lines_eq)

lemma match_lines_of_empty_iff:
  "match_lines_of file_lines words = {} \<longleftrightarrow> (\<forall>line\<in>set file_lines. \<not> flagged words line)"
  by (auto simp: match_lines_of_eq set_conv_nth)

lemma context_of_bound: "m < n \<Longrightarrow> k \<in> context_of n m \<Longrightarrow> k < n"
  by (auto simp: context_of_def split: if_splits)

lemma context_of_self: "m \<in> context_of n m"
  by (simp add: context_of_def)

lemma print_lines_of_bound:
  "\<forall>m\<in>M. m < n \<Longrightarrow> k \<in> print_lines_of n M \<Longrightarrow> k < n"
  by (auto simp: print_lines_of_def dest: context_of_bound)

lemma print_lines_bound: "k \<in> print_lines file_lines words \<Longrightarrow> k < length file_lines"
  unfolding print_lines_def
  by (rule print_lines_of_bound [of "match_lines_of file_lines words"])
     (simp_all add: match_lines_of_eq)

lemma finite_print_lines: "finite (print_lines file_lines words)"
proof (rule finite_subset)
  show "print_lines file_lines words \<subseteq> {..<length file_lines}"
    by (auto dest: print_lines_bound)
qed simp

lemma print_lines_empty_iff:
  "print_lines file_lines words = {} \<longleftrightarrow> match_lines_of file_lines words = {}"
  using context_of_self by (fastforce simp: print_lines_def print_lines_of_def)

lemma print_loop_eq:
  "\<forall>p\<in>set ps. p < length cl \<Longrightarrow>
   print_loop w cl prev ps =
     Inr (concat (map (\<lambda>(prev, p). (if int p - int prev > 1 then [separator w] else []) @
                                   [context_line w p (cl ! p)])
                    (zip (prev # ps) ps)))"
  by (induction ps arbitrary: prev) simp_all

lemma zip_shift_nth:
  "map f (zip (a # ps) ps) = map (\<lambda>i. f (if i = 0 then a else ps ! (i - 1), ps ! i)) [0..<length ps]"
  by (rule nth_equalityI) (auto simp: nth_Cons')

lemma words_context_eq:
  fixes file_lines words
  defines "ps \<equiv> sorted_list_of_set (print_lines file_lines words)"
  defines "w \<equiv> line_number_width file_lines"
  defines "cl \<equiv> map (highlight words) file_lines"
  shows "words_context file_lines words =
     (if match_lines_of file_lines words = {} then Inl IndexError
      else Inr (concat (map (\<lambda>(prev, p). (if int p - int prev > 1 then [separator w] else []) @
                                   [context_line w p (cl ! p)])
                    (zip (hd ps # ps) ps)) @ [[NL]]))"
proof -
  have set_ps: "set ps = print_lines file_lines words"
    using finite_print_lines by (simp add: ps_def)
  have ps_bound: "\<forall>p\<in>set ps. p < length cl"
    using set_ps by (auto simp: cl_def dest: print_lines_bound)
  have nil: "ps = [] \<longleftrightarrow> match_lines_of file_lines words = {}"
    using finite_print_lines [of file_lines words] by (simp add: ps_def print_lines_empty_iff)
  have unfold: "words_context file_lines words =
      (case ps of [] \<Rightarrow> Inl IndexError
       | p # _ \<Rightarrow> (case print_loop w cl p ps of Inl e \<Rightarrow> Inl e | Inr out \<Rightarrow> Inr (out @ [[NL]])))"
    unfolding words_context_def ps_def w_def cl_def print_lines_def match_lines_of_def
      line_number_width_def highlight_lines_eq prod.case fst_conv Let_def length_map ..
  show ?thesis
  proof (cases ps)
    case Nil
    with nil unfold show ?thesis by simp
  next
    case (Cons p ps')
    with nil have "match_lines_of file_lines words \<noteq> {}" by simp
    moreover have "print_loop w cl p ps =
        Inr (concat (map (\<lambda>(prev, p). (if int p - int prev > 1 then [separator w] else []) @
                                   [context_line w p (cl ! p)]) (zip (p # ps) ps)))"
      using ps_bound by (rule print_loop_eq)
    ultimately show ?thesis
      using Cons unfold by simp
  qed
qed

lemma printed_context_lines:
  "p \<in> set ps \<Longrightarrow>
   c p \<in> set (concat (map (\<lambda>(prev, p). (if g prev p then [s] else []) @ [c p]) (zip (a # ps) ps)))"
  by (induction ps arbitrary: a) auto

lemma printed_only:
  "x \<in> set (concat (map (\<lambda>(prev, p). (if g prev p then [s] else []) @ [c p]) (zip (a # ps) ps))) \<Longrightarrow>
   x = s \<or> x \<in> c ` set ps"
  by (induction ps arbitrary: a) (auto split: if_splits)

lemma print_words_context_eq:
  assumes "readlines env path = Some file_lines"
  shows "print_words_context env path words = words_context file_lines words"
  using assms by (simp add: print_words_context_def)

lemma print_words_context_succeeds:
  assumes "readlines env path = Some file_lines"
    and "match_lines_of file_lines words \<noteq> {}"
  shows "\<exists>out. print_words_context env path words = Inr out"
  using assms by (simp add: print_words_context_eq words_context_eq)

text \<open>
  Claim C4.  For a match line \<open>N\<close> of a file, the lines to print hold \<open>N\<close>, the line
  \<open>N - 1\<close> unless \<open>N\<close> is the first line, and the line \<open>N + 1\<close> unless \<open>N\<close> is the last
  line; every line to print is a line of the file and is a match line or next to one.  The
  reporter prints the context line of every line to print, and prints nothing but these
  context lines, separator rules and the closing line feed.
\<close>

theorem context_window_clamped:
  assumes "readlines env path = Some file_lines"
    and "N \<in> match_lines_of file_lines words"
  shows "N < length file_lines \<and>
    N \<in> print_lines file_lines words \<and>
    (0 < N \<longrightarrow> N - 1 \<in> print_lines file_lines words) \<and>
    (N + 1 < length file_lines \<longrightarrow> N + 1 \<in> print_lines file_lines words) \<and>
    (\<forall>k\<in>print_lines file_lines words. k < length file_lines \<and>
       (\<exists>M\<in>match_lines_of file_lines words. k + 1 = M \<or> k = M \<or> k = M + 1)) \<and>
    (\<exists>out. print_words_context env path words = Inr out \<and>
       (\<forall>k\<in>print_lines file_lines words.
          context_line (line_number_width file_lines) k (highlight words (file_lines ! k)) \<in> set out) \<and>
       (\<forall>t\<in>set out. t = separator (line_number_width file_lines) \<or> t = [NL] \<or>
          (\<exists>k\<in>print_lines file_lines words.
             t = context_line (line_number_width file_lines) k (highlight words (file_lines ! k)))))"
proof -
  let ?P = "print_lines file_lines words"
  let ?w = "line_number_width file_lines"
  let ?c = "\<lambda>k. context_line ?w k (map (highlight words) file_lines ! k)"
  let ?ps = "sorted_list_of_set ?P"
  let ?body = "concat (map (\<lambda>(prev, p). (if int p - int prev > 1 then [separator ?w] else []) @ [?c p])
                 (zip (hd ?ps # ?ps) ?ps))"
  have N: "N < length file_lines"
    using assms(2) by (simp add: match_lines_of_eq)
  have in_ctx: "context_of (length file_lines) N \<subseteq> ?P"
    using assms(2) by (auto simp: print_lines_def print_lines_of_def)
  have self: "N \<in> ?P"
    using in_ctx context_of_self by blast
  have before: "0 < N \<longrightarrow> N - 1 \<in> ?P"
    using in_ctx by (auto simp: context_of_def)
  have after: "N + 1 < length file_lines \<longrightarrow> N + 1 \<in> ?P"
    using in_ctx by (auto simp: context_of_def)
  have clamped: "\<forall>k\<in>?P. k < length file_lines \<and>
       (\<exists>M\<in>match_lines_of file_lines words. k + 1 = M \<or> k = M \<or> k = M + 1)"
  proof
    fix k assume k: "k \<in> ?P"
    then obtain M where "M \<in> match_lines_of file_lines words" "k \<in> context_of (length file_lines) M"
      by (auto simp: print_lines_def print_lines_of_def)
    then have "\<exists>M\<in>match_lines_of file_lines words. k + 1 = M \<or> k = M \<or> k = M + 1"
      by (auto simp: context_of_def split: if_splits)
    with k show "k < length file_lines \<and>
       (\<exists>M\<in>match_lines_of file_lines words. k + 1 = M \<or> k = M \<or> k = M + 1)"
      by (simp add: print_lines_bound)
  qed
  have set_ps: "set ?ps = ?P"
    using finite_print_lines by simp
  have out: "print_words_context env path words = Inr (?body @ [[NL]])"
    using assms by (auto simp: print_words_context_eq words_context_eq)
  have nth: "\<forall>k\<in>?P. ?c k = context_line ?w k (highlight words (file_lines ! k))"
    by (simp add: print_lines_bound)
  have all_printed: "\<forall>k\<in>?P. context_line ?w k (highlight words (file_lines ! k)) \<in> set (?body @ [[NL]])"
  proof
    fix k assume k: "k \<in> ?P"
    then have "k \<in> set ?ps" using set_ps by simp
    then have "?c k \<in> set ?body" by (rule printed_context_lines)
    with k nth show "context_line ?w k (highlight words (file_lines ! k)) \<in> set (?body @ [[NL]])"
      by simp
  qed
  have nothing_else: "\<forall>t\<in>set (?body @ [[NL]]). t = separator ?w \<or> t = [NL] \<or>
          (\<exists>k\<in>?P. t = context_line ?w k (highlight words (file_lines ! k)))"
  proof
    fix t assume "t \<in> set (?body @ [[NL]])"
    then consider "t = [NL]" | "t \<in> set ?body" by auto
    then show "t = separator ?w \<or> t = [NL] \<or>
          (\<exists>k\<in>?P. t = context_line ?w k (highlight words (file_lines ! k)))"
    proof cases
      case 1 then show ?thesis by simp
    next
      case 2
      then have "t = separator ?w \<or> t \<in> ?c ` set ?ps" by (rule printed_only)
      with set_ps nth show ?thesis by auto
    qed
  qed
  from N self before after clamped out all_printed nothing_else show ?thesis by blast
qed

theorem context_window_clamped_witness:
  "0 \<in> match_lines_of wrold_file [''wrold''] \<and>
   print_lines wrold_file [''wrold''] = {0, 1} \<and>
   (\<exists>out. print_words_context (sample_env [(''a.md'', wrold_file)] [] wrold_engine) ''a.md'' [''wrold''] = Inr out \<and>
      context_line 1 1 (''This is fine.'' @ [NL]) \<in> set out)"
proof -
  let ?env = "sample_env [(''a.md'', wrold_file)] [] wrold_engine"
  have r: "readlines ?env ''a.md'' = Some wrold_file"
    by (simp add: sample_env_def)
  have m: "0 \<in> match_lines_of wrold_file [''wrold'']"
    by code_simp
  have p: "print_lines wrold_file [''wrold''] = {0, 1}"
    by code_simp
  have w: "line_number_width wrold_file = 1"
    by code_simp
  have hl: "highlight [''wrold''] (wrold_file ! 1) = ''This is fine.'' @ [NL]"
    by code_simp
  show ?thesis
    using context_window_clamped [OF r m] m p w hl by auto
qed

text \<open>
  Claim C8.  The reporter prints the lines to print in ascending order, each once, and
  the separator rule stands immediately before the context line at position \<open>i\<close> exactly
  when \<open>i\<close> is not the first position and the index of the line exceeds the index of the
  line printed before it by more than 1.
\<close>

theorem ascending_with_separators:
  assumes "readlines env path = Some file_lines"
    and "print_words_context env path words = Inr out"
    and "ps = sorted_list_of_set (print_lines file_lines words)"
    and "w = line_number_width file_lines"
  shows "sorted ps \<and> distinct ps \<and> set ps = print_lines file_lines words \<and>
    out = concat (map (\<lambda>i. (if 0 < i \<and> int (ps ! i) - int (ps ! (i - 1)) > 1
                              then [separator w] else []) @
                             [context_line w (ps ! i) (highlight words (file_lines ! (ps ! i)))])
                   [0..<length ps]) @ [[NL]]"
proof -
  let ?cl = "map (highlight words) file_lines"
  let ?F = "\<lambda>(prev, p). (if int p - int prev > 1 then [separator w] else []) @
                         [context_line w p (?cl ! p)]"
  have set_ps: "set ps = print_lines file_lines words"
    using finite_print_lines assms(3) by simp
  have order: "sorted ps" "distinct ps"
    using assms(3) by simp_all
  have "words_context file_lines words = Inr out"
    using assms(1,2) by (simp add: print_words_context_eq)
  then have "out = concat (map ?F (zip (hd ps # ps) ps)) @ [[NL]]"
    unfolding words_context_eq assms(3,4) by (simp split: if_splits)
  also have "map ?F (zip (hd ps # ps) ps) =
      map (\<lambda>i. ?F (if i = 0 then hd ps else ps ! (i - 1), ps ! i)) [0..<length ps]"
    by (rule zip_shift_nth)
  also have "\<dots> = map (\<lambda>i. (if 0 < i \<and> int (ps ! i) - int (ps ! (i - 1)) > 1
                              then [separator w] else []) @
                             [context_line w (ps ! i) (highlight words (file_lines ! (ps ! i)))])
                   [0..<length ps]"
  proof (rule map_cong [OF refl])
    fix i assume "i \<in> set [0..<length ps]"
    then have i: "i < length ps" by simp
    then have "ps ! i \<in> print_lines file_lines words"
      using set_ps nth_mem by blast
    then have "ps ! i < length file_lines"
      by (rule print_lines_bound)
    moreover have "hd ps = ps ! 0"
      using i by (cases ps) auto
    ultimately show "?F (if i = 0 then hd ps else ps ! (i - 1), ps ! i) =
        (if 0 < i \<and> int (ps ! i) - int (ps ! (i - 1)) > 1 then [separator w] else []) @
        [context_line w (ps ! i) (highlight words (file_lines ! (ps ! i)))]"
      by simp
  qed
  finally show ?thesis
    using order set_ps by simp
qed

theorem ascending_with_separators_witness:
  "print_words_context (sample_env [(''a.md'', gap_file)] [] wrold_engine) ''a.md'' [''wrold''] =
     Inr [context_line 1 0 (RED @ ''wrold'' @ RESET @ '' one'' @ [NL]),
          context_line 1 1 (''two'' @ [NL]),
          separator 1,
          context_line 1 4 (''five'' @ [NL]),
          context_line 1 5 (''six '' @ RED @ ''wrold'' @ RESET @ [NL]),
          [NL]]"
proof -
  let ?env = "sample_env [(''a.md'', gap_file)] [] wrold_engine"
  have r: "readlines ?env ''a.md'' = Some gap_file"
    by (simp add: sample_env_def)
  have "match_lines_of gap_file [''wrold''] \<noteq> {}"
    by code_simp
  then obtain out where out: "print_words_context ?env ''a.md'' [''wrold''] = Inr out"
    using r by (auto dest: print_words_context_succeeds)
  have ps: "[0, 1, 4, 5] = sorted_list_of_set (print_lines gap_file [''wrold''])"
    by code_simp
  have w: "1 = line_number_width gap_file"
    by code_simp
  have hl: "highlight [''wrold''] (gap_file ! 0) = RED @ ''wrold'' @ RESET @ '' one'' @ [NL]"
    "highlight [''wrold''] (gap_file ! Suc 0) = ''two'' @ [NL]"
    "highlight [''wrold''] (gap_file ! 4) = ''five'' @ [NL]"
    "highlight [''wrold''] (gap_file ! 5) = ''six '' @ RED @ ''wrold'' @ RESET @ [NL]"
    by code_simp+
  have "out = concat (map (\<lambda>i. (if 0 < i \<and> int ([0, 1, 4, 5] ! i) - int ([0, 1, 4, 5] ! (i - 1)) > 1
                              then [separator 1] else []) @
                             [context_line 1 ([0, 1, 4, 5] ! i) (highlight [''wrold''] (gap_file ! ([0, 1, 4, 5] ! i)))])
                   [0..<length [0, 1, 4, 5 :: nat]]) @ [[NL]]"
    using ascending_with_separators [OF r out ps w] by blast
  then have "out = [context_line 1 0 (RED @ ''wrold'' @ RESET @ '' one'' @ [NL]),
          context_line 1 1 (''two'' @ [NL]),
          separator 1,
          context_line 1 4 (''five'' @ [NL]),
          context_line 1 5 (''six '' @ RED @ ''wrold'' @ RESET @ [NL]),
          [NL]]"
    by (simp add: upt_rec hl del: upt_Suc)
  with out show ?thesis by simp
qed

text \<open>
  Claim C10.  When none of the words occurs in any line of the file, the set of lines to
  print is empty and the reporter fails with \<open>IndexError\<close>, raised by
  \<open>sorted(print_lines)[0]\<close>; when some word occurs in some line, the reporter prints
  its report.  So the reporter needs a word that occurs in a line.
\<close>

theorem no_match_index_error:
  assumes "readlines env path = Some file_lines"
  shows "((\<forall>word\<in>set words. \<forall>line\<in>set file_lines. \<not> str_contains line word) \<longrightarrow>
            print_lines file_lines words = {} \<and>
            print_words_context env path words = Inl IndexError) \<and>
         ((\<exists>word\<in>set words. \<exists>line\<in>set file_lines. str_contains line word) \<longrightarrow>
            (\<exists>out. print_words_context env path words = Inr out))"
proof -
  have "match_lines_of file_lines words = {} \<longleftrightarrow>
      (\<forall>word\<in>set words. \<forall>line\<in>set file_lines. \<not> str_contains line word)"
    by (auto simp: match_lines_of_empty_iff flagged_def)
  then show ?thesis
    using assms by (auto simp: print_words_context_eq words_context_eq print_lines_empty_iff)
qed

theorem no_match_index_error_witness:
  "print_words_context (sample_env [(''a.md'', wrold_file)] [] wrold_engine) ''a.md'' [''wrong''] = Inl IndexError \<and>
   (\<exists>out. print_words_context (sample_env [(''a.md'', wrold_file)] [] wrold_engine) ''a.md'' [''wrold''] = Inr out)"
proof -
  have r: "readlines (sample_env [(''a.md'', wrold_file)] [] wrold_engine) ''a.md'' = Some wrold_file"
    by (simp add: sample_env_def)
  have no: "\<forall>word\<in>set [''wrong'']. \<forall>line\<in>set wrold_file. \<not> str_contains line word"
    by (simp add: wrold_file_def NL_def)
  have yes: "\<exists>word\<in>set [''wrold'']. \<exists>line\<in>set wrold_file. str_contains line word"
    by (simp add: wrold_file_def NL_def)
  show ?thesis
    using no_match_index_error [OF r, of "[''wrong'']"] no_match_index_error [OF r, of "[''wrold'']"] no yes
    by blast
qed

text \<open>
  Claim C7, at a file of nine lines.  The largest line number, 9, has one digit; the
  reporter computes the width from \<open>len(content_lines) + 1\<close>, which is 10, and pads the
  line numbers to two characters.
\<close>

theorem nine_line_file_width:
  "line_number_width nine_lines = 2 \<and> length (str_nat (length nine_lines)) = 1 \<and>
   print_words_context (sample_env [(''a.md'', nine_lines)] [] wrold_engine) ''a.md'' [''wrold''] =
     Inr [BLUE @ '' 1:'' @ RESET @ '' '' @ RED @ ''wrold'' @ RESET @ [NL],
          BLUE @ '' 2:'' @ RESET @ '' '' @ ''ok'' @ [NL],
          [NL]]"
  by code_simp

text \<open>
  Claim C5, at a line with the two flagged words \<open>wrold\<close> and \<open>wrolds\<close>.  The word
  \<open>wrolds\<close> occurs in the line of the file, but no longer in the copy once \<open>wrold\<close> is
  wrapped, so \<open>replace\<close> leaves the copy as it is: the printed line does not hold
  \<open>wrolds\<close> wrapped in the marker.
\<close>

theorem overlapping_words_not_wrapped:
  "str_contains (''Hello wrold and wrolds.'' @ [NL]) ''wrolds'' \<and>
   print_words_context (sample_env [(''a.md'', [''Hello wrold and wrolds.'' @ [NL]])] [] wrold_engine)
       ''a.md'' [''wrold'', ''wrolds''] =
     Inr [BLUE @ ''1:'' @ RESET @ '' '' @
            ''Hello '' @ RED @ ''wrold'' @ RESET @ '' and '' @ RED @ ''wrold'' @ RESET @ ''s.'' @ [NL],
          [NL]] \<and>
   \<not> str_contains (highlight [''wrold'', ''wrolds''] (''Hello wrold and wrolds.'' @ [NL]))
        (RED @ ''wrolds'' @ RESET)"
  by code_simp

text \<open>
  A line index is a match line exactly when it is an index of the file and one of the
  words is a contiguous part of that line, character for character.
\<close>

theorem match_line_iff_substring:
  "i \<in> match_lines_of file_lines words \<longleftrightarrow>
     i < length file_lines \<and> (\<exists>word\<in>set words. sublist word (file_lines ! i))"
  by (simp add: match_lines_of_eq flagged_def str_contains_sublist)

text \<open>What \<open>replace\<close> does for a word that occurs in the line.\<close>

lemma replace_from_contains:
  "old \<noteq> [] \<Longrightarrow> str_contains s old \<Longrightarrow> str_contains (replace_from s old new) new"
proof (induction s old new rule: replace_from.induct)
  case (1 old new)
  then show ?case by simp
next
  case (2 c cs old new)
  show ?case
  proof (cases "prefix old (c # cs)")
    case True
    then show ?thesis
      using "2.prems" by (simp add: str_contains_sublist)
  next
    case False
    then have "str_contains cs old"
      using "2.prems" by simp
    then have "str_contains (replace_from cs old new) new"
      using False "2.prems" "2.IH"(2) by simp
    then show ?thesis
      using False by (simp add: str_contains_sublist sublist_Cons_right)
  qed
qed

lemma highlight_unflagged: "\<not> flagged words line \<Longrightarrow> highlight_words line index words (M, c) = (M, c)"
  by (induction words arbitrary: M c) (auto simp: flagged_def)

text \<open>
  When the list of words is one non-empty word that occurs in the line, the printed copy
  is the line with the word replaced by the word in the marker, and it holds the word
  wrapped in the marker.  A line in which no word occurs is printed as it is.
\<close>

theorem single_word_wrapped:
  "(str_contains line word \<and> word \<noteq> [] \<longrightarrow>
      highlight [word] line = replace line word (RED @ word @ RESET) \<and>
      str_contains (highlight [word] line) (RED @ word @ RESET)) \<and>
   (\<not> flagged words line \<longrightarrow> highlight words line = line)"
  by (auto simp: highlight_def replace_def replace_from_contains highlight_unflagged)

theorem single_word_wrapped_witness:
  "highlight [''wrold''] (''Hello wrold.'' @ [NL]) = ''Hello '' @ RED @ ''wrold'' @ RESET @ ''.'' @ [NL] \<and>
   str_contains (highlight [''wrold''] (''Hello wrold.'' @ [NL])) (RED @ ''wrold'' @ RESET) \<and>
   highlight [''wrold''] (''This is fine.'' @ [NL]) = ''This is fine.'' @ [NL]"
proof -
  let ?hello = "''Hello wrold.'' @ [NL]"
  let ?fine = "''This is fine.'' @ [NL]"
  have a: "str_contains ?hello ''wrold'' \<and> ''wrold'' \<noteq> []"
    by code_simp
  have b: "\<not> flagged [''wrold''] ?fine"
    by code_simp
  have c: "replace ?hello ''wrold'' (RED @ ''wrold'' @ RESET) =
      ''Hello '' @ RED @ ''wrold'' @ RESET @ ''.'' @ [NL]"
    by code_simp
  from single_word_wrapped [of ?hello "''wrold''" "[]"] a
  have h: "highlight [''wrold''] ?hello = replace ?hello ''wrold'' (RED @ ''wrold'' @ RESET)"
    and w: "str_contains (highlight [''wrold''] ?hello) (RED @ ''wrold'' @ RESET)"
    by blast+
  from single_word_wrapped [of ?fine "''wrold''" "[''wrold'']"] b
  have f: "highlight [''wrold''] ?fine = ?fine"
    by blast
  from h c have "highlight [''wrold''] ?hello = ''Hello '' @ RED @ ''wrold'' @ RESET @ ''.'' @ [NL]"
    by (rule trans)
  with w f show ?thesis
    by (intro conjI)
qed

text \<open>The number of digits does not go down as the number goes up.\<close>

lemma length_str_nat_mono: "n \<le> m \<Longrightarrow> length (str_nat n) \<le> length (str_nat m)"
proof (induction m arbitrary: n rule: str_nat.induct)
  case (1 m)
  show ?case
  proof (cases "m < 10")
    case True
    with "1.prems" show ?thesis by (simp add: str_nat.simps [of n] str_nat.simps [of m])
  next
    case False
    show ?thesis
    proof (cases "n < 10")
      case True
      with False show ?thesis by (simp add: str_nat.simps [of n] str_nat.simps [of m])
    next
      case n: False
      have "n div 10 \<le> m div 10" using "1.prems" by (rule div_le_mono)
      with False have "length (str_nat (n div 10)) \<le> length (str_nat (m div 10))"
        by (intro "1.IH") simp_all
      with False n show ?thesis by (simp add: str_nat.simps [of n] str_nat.simps [of m])
    qed
  qed
qed

text \<open>
  The line number of a printed line is its index plus one, padded with spaces on the
  left to exactly the width that the reporter computes, which is the number of digits of
  the number of lines plus one.
\<close>

theorem line_number_field:
  assumes "k < length file_lines"
  shows "length (format_width (k + 1) (line_number_width file_lines)) = line_number_width file_lines \<and>
         line_number_width file_lines = length (str_nat (length file_lines + 1)) \<and>
         format_width (k + 1) (line_number_width file_lines) =
           replicate (line_number_width file_lines - length (str_nat (k + 1))) CHR '' '' @ str_nat (k + 1)"
proof -
  have "length (str_nat (k + 1)) \<le> length (str_nat (length file_lines + 1))"
    using assms by (intro length_str_nat_mono) simp
  then show ?thesis
    by (simp add: format_width_def line_number_width_def)
qed

theorem line_number_field_witness:
  "format_width (0 + 1) (line_number_width nine_lines) = '' 1'' \<and> line_number_width nine_lines = 2"
proof -
  have k: "0 < length nine_lines" by code_simp
  have "format_width (0 + 1) 2 = '' 1''" by code_simp
  moreover have "line_number_width nine_lines = 2" by code_simp
  ultimately show ?thesis
    using line_number_field [OF k] by simp
qed

section \<open>Properties of the content pruner\<close>






text \<open>The pattern substitution, step by step.\<close>

lemma sub_https_match:
  assumes "prefix ''https://'' (c # cs)"
  shows "sub_https (c # cs) = sub_https (dropWhile (\<lambda>x. \<not> isspace x) (drop 8 (c # cs)))"
  by (subst sub_https.simps(2)) (simp only: assms if_True)

lemma sub_https_skip:
  assumes "\<not> prefix ''https://'' (c # cs)"
  shows "sub_https (c # cs) = c # sub_https cs"
  by (subst sub_https.simps(2)) (simp only: assms if_False)

lemma sub_https_space: "isspace c \<Longrightarrow> sub_https (c # cs) = c # sub_https cs"
  by (rule sub_https_skip) (auto simp: isspace_def)

lemma sub_https_after_match:
  "sub_https (dropWhile (\<lambda>x. \<not> isspace x) s) = [] \<or>
   isspace (hd (sub_https (dropWhile (\<lambda>x. \<not> isspace x) s)))"
proof (cases "dropWhile (\<lambda>x. \<not> isspace x) s")
  case Nil
  then have "sub_https (dropWhile (\<lambda>x. \<not> isspace x) s) = []"
    by (simp only: sub_https.simps)
  then show ?thesis ..
next
  case (Cons c cs)
  then have "dropWhile (\<lambda>x. \<not> isspace x) s \<noteq> []"
    by (simp only: list.distinct not_False_eq_True)
  then have "\<not> \<not> isspace (hd (dropWhile (\<lambda>x. \<not> isspace x) s))"
    by (rule hd_dropWhile)
  then have sp: "isspace c"
    by (simp only: Cons list.sel not_not)
  then have "sub_https (c # cs) = c # sub_https cs"
    by (rule sub_https_space)
  then have "isspace (hd (sub_https (dropWhile (\<lambda>x. \<not> isspace x) s)))"
    using sp by (simp only: Cons list.sel)
  then show ?thesis ..
qed

lemma prefix_sub_https:
  "\<forall>ch\<in>set q. \<not> isspace ch \<Longrightarrow> prefix q (sub_https s) \<Longrightarrow> prefix q s"
proof (induction q arbitrary: s)
  case Nil
  then show ?case by simp
next
  case (Cons x q)
  show ?case
  proof (cases s)
    case Nil
    with Cons.prems show ?thesis by simp
  next
    case s: (Cons c cs)
    show ?thesis
    proof (cases "prefix ''https://'' (c # cs)")
      case True
      then have r: "sub_https s = sub_https (dropWhile (\<lambda>x. \<not> isspace x) (drop 8 (c # cs)))"
        unfolding s by (rule sub_https_match)
      from Cons.prems(2) have "sub_https s \<noteq> []" "hd (sub_https s) = x"
        by (cases "sub_https s"; simp)+
      with r sub_https_after_match [of "drop 8 (c # cs)"] have "isspace x"
        by auto
      with Cons.prems(1) show ?thesis by simp
    next
      case False
      then have "sub_https s = c # sub_https cs"
        unfolding s by (rule sub_https_skip)
      with Cons.prems(2) have x: "x = c" and p: "prefix q (sub_https cs)"
        by simp_all
      from Cons.prems(1) have "\<forall>ch\<in>set q. \<not> isspace ch"
        by simp
      then have "prefix q cs"
        using p by (rule Cons.IH)
      with x show ?thesis using s by simp
    qed
  qed
qed

lemma sub_https_clean: "\<not> str_contains (sub_https s) ''https://''"
proof (induction s rule: sub_https.induct)
  case 1
  then show ?case by simp
next
  case (2 c cs)
  show ?case
  proof (cases "prefix ''https://'' (c # cs)")
    case True
    then have r: "sub_https (c # cs) = sub_https (dropWhile (\<lambda>x. \<not> isspace x) (drop 8 (c # cs)))"
      by (rule sub_https_match)
    have "\<not> str_contains (sub_https (dropWhile (\<lambda>x. \<not> isspace x) (drop 8 (c # cs)))) ''https://''"
      using True by (rule "2.IH"(1))
    then show ?thesis unfolding r .
  next
    case False
    then have r: "sub_https (c # cs) = c # sub_https cs"
      by (rule sub_https_skip)
    have tail: "\<not> str_contains (sub_https cs) ''https://''"
      using False by (rule "2.IH"(2))
    have head: "\<not> prefix ''https://'' (c # sub_https cs)"
    proof
      assume "prefix ''https://'' (c # sub_https cs)"
      then have c: "c = CHR ''h''" and p: "prefix ''ttps://'' (sub_https cs)"
        by simp_all
      have "\<forall>ch\<in>set ''ttps://''. \<not> isspace ch"
        by (simp add: isspace_def)
      then have "prefix ''ttps://'' cs"
        using p by (rule prefix_sub_https)
      with c have "prefix ''https://'' (c # cs)" by simp
      with False show False ..
    qed
    have "str_contains (c # sub_https cs) ''https://'' \<longleftrightarrow>
        prefix ''https://'' (c # sub_https cs) \<or> str_contains (sub_https cs) ''https://''"
      by (rule str_contains.simps(2))
    with head tail have "\<not> str_contains (c # sub_https cs) ''https://''"
      by blast
    then show ?thesis unfolding r .
  qed
qed








text \<open>After the substitution no \<open>https://\<close> is left in the text.\<close>

theorem no_https_left: "\<not> str_contains (sub_https s) ''https://''"
  by (rule sub_https_clean)




section \<open>Properties of the script\<close>

text \<open>The loop over the files, in closed form.\<close>

lemma strip_Nil_iff: "strip s = [] \<longleftrightarrow> whitespace_only s"
proof -
  have "(\<forall>c\<in>set (dropWhile isspace s). isspace c) \<longleftrightarrow> (\<forall>c\<in>set s. isspace c)"
  proof
    assume all: "\<forall>c\<in>set (dropWhile isspace s). isspace c"
    have "dropWhile isspace s = []"
    proof (rule ccontr)
      assume ne: "dropWhile isspace s \<noteq> []"
      then have "\<not> isspace (hd (dropWhile isspace s))"
        by (rule hd_dropWhile)
      moreover have "hd (dropWhile isspace s) \<in> set (dropWhile isspace s)"
        using ne by (rule hd_in_set)
      ultimately show False using all by blast
    qed
    then show "\<forall>c\<in>set s. isspace c"
      by (simp only: dropWhile_eq_Nil_conv)
  next
    assume "\<forall>c\<in>set s. isspace c"
    then show "\<forall>c\<in>set (dropWhile isspace s). isspace c"
      by (auto dest: set_dropWhileD)
  qed
  then show ?thesis
    by (simp add: strip_def whitespace_only_def dropWhile_eq_Nil_conv)
qed

lemma split_nl_not_Nil: "split_nl s \<noteq> []"
  by (induction s) (auto split: list.splits)

lemma check_files_acc:
  "check_files env a filepaths good bad = Inr (good_files, bad_files) \<Longrightarrow>
     good_files = good @ map (\<lambda>path. \<lparr>filepath = path, misspelled_words = []\<rparr>)
                           (filter (clean env a) filepaths) \<and>
     bad_files = bad @ map (\<lambda>path. \<lparr>filepath = path, misspelled_words = stored_words env a path\<rparr>)
                           (filter (\<lambda>path. \<not> clean env a path) filepaths) \<and>
     (\<forall>path\<in>set filepaths. \<exists>stdout. run_spellcheck env a path = Inr stdout)"
proof (induction filepaths arbitrary: good bad)
  case Nil
  then show ?case by simp
next
  case (Cons path filepaths)
  from Cons.prems obtain stdout where out: "run_spellcheck env a path = Inr stdout"
    by (cases "run_spellcheck env a path") auto
  show ?case
  proof (cases "strip stdout = []")
    case True
    then have c: "clean env a path"
      using out by (simp add: clean_def strip_Nil_iff)
    from Cons.prems out True
    have "check_files env a filepaths (good @ [\<lparr>filepath = path, misspelled_words = []\<rparr>]) bad
        = Inr (good_files, bad_files)"
      by simp
    from Cons.IH [OF this] c out show ?thesis by simp
  next
    case False
    then have c: "\<not> clean env a path"
      using out by (simp add: clean_def strip_Nil_iff)
    have w: "stored_words env a path = map strip (split_nl (strip stdout))"
      using out by (simp add: stored_words_def)
    from Cons.prems out False
    have "check_files env a filepaths good
        (bad @ [\<lparr>filepath = path, misspelled_words = map strip (split_nl (strip stdout))\<rparr>])
        = Inr (good_files, bad_files)"
      by simp
    from Cons.IH [OF this] c out w show ?thesis by simp
  qed
qed

lemma stored_words_not_Nil: "\<not> clean env a path \<Longrightarrow> run_spellcheck env a path = Inr stdout \<Longrightarrow> stored_words env a path \<noteq> []"
  by (simp add: stored_words_def split_nl_not_Nil)

lemma check_two_files:
  "check_files (sample_env two_files [''dict.txt''] wrold_engine) (sample_args ''dict.txt'')
     [''a.md'', ''b.md''] [] [] =
   Inr ([\<lparr>filepath = ''b.md'', misspelled_words = []\<rparr>],
        [\<lparr>filepath = ''a.md'', misspelled_words = [''wrold'', ''wrold'']\<rparr>])"
  by code_simp

lemma glob_two_files:
  "glob (sample_env two_files [''dict.txt''] wrold_engine) (files (sample_args ''dict.txt'')) = [''a.md'', ''b.md'']"
  by (simp add: sample_env_def two_files_def)

lemma check_fine_file:
  "check_files (sample_env [(''b.md'', fine_file)] [''dict.txt''] wrold_engine) (sample_args ''dict.txt'')
     (glob (sample_env [(''b.md'', fine_file)] [''dict.txt''] wrold_engine) (files (sample_args ''dict.txt''))) [] [] =
   Inr ([\<lparr>filepath = ''b.md'', misspelled_words = []\<rparr>], [])"
  by code_simp

text \<open>
  Claim C2.  When the loop over the files ends, every file has an engine output; the file
  is among the good files exactly when that output is empty or whitespace only, and
  among the bad files exactly when it is not.  The good and the bad files together are
  the input files, no file is in both, every good file has an empty list of misspelled
  words and every bad file a non-empty one.
\<close>

theorem files_partitioned:
  assumes "check_files env a filepaths [] [] = Inr (good_files, bad_files)"
  shows "(\<forall>path\<in>set filepaths. \<exists>stdout. run_spellcheck env a path = Inr stdout \<and>
            (path \<in> filepath ` set good_files \<longleftrightarrow> whitespace_only stdout) \<and>
            (path \<in> filepath ` set bad_files \<longleftrightarrow> \<not> whitespace_only stdout)) \<and>
         map filepath good_files = filter (clean env a) filepaths \<and>
         map filepath bad_files = filter (\<lambda>path. \<not> clean env a path) filepaths \<and>
         filepath ` set good_files \<union> filepath ` set bad_files = set filepaths \<and>
         filepath ` set good_files \<inter> filepath ` set bad_files = {} \<and>
         (\<forall>good_file\<in>set good_files. misspelled_words good_file = []) \<and>
         (\<forall>bad_file\<in>set bad_files. misspelled_words bad_file \<noteq> [])"
proof -
  from check_files_acc [OF assms]
  have good: "good_files = map (\<lambda>path. \<lparr>filepath = path, misspelled_words = []\<rparr>)
                           (filter (clean env a) filepaths)"
    and bad: "bad_files = map (\<lambda>path. \<lparr>filepath = path, misspelled_words = stored_words env a path\<rparr>)
                           (filter (\<lambda>path. \<not> clean env a path) filepaths)"
    and ran: "\<forall>path\<in>set filepaths. \<exists>stdout. run_spellcheck env a path = Inr stdout"
    by simp_all
  have mg: "map filepath good_files = filter (clean env a) filepaths"
    by (simp add: good comp_def)
  have mb: "map filepath bad_files = filter (\<lambda>path. \<not> clean env a path) filepaths"
    by (simp add: bad comp_def)
  have sg: "filepath ` set good_files = {path \<in> set filepaths. clean env a path}"
    using mg by (metis set_filter set_map)
  have sb: "filepath ` set bad_files = {path \<in> set filepaths. \<not> clean env a path}"
    using mb by (metis set_filter set_map)
  have each: "\<forall>path\<in>set filepaths. \<exists>stdout. run_spellcheck env a path = Inr stdout \<and>
            (path \<in> filepath ` set good_files \<longleftrightarrow> whitespace_only stdout) \<and>
            (path \<in> filepath ` set bad_files \<longleftrightarrow> \<not> whitespace_only stdout)"
  proof
    fix path assume p: "path \<in> set filepaths"
    with ran obtain stdout where "run_spellcheck env a path = Inr stdout" by blast
    with p sg sb show "\<exists>stdout. run_spellcheck env a path = Inr stdout \<and>
            (path \<in> filepath ` set good_files \<longleftrightarrow> whitespace_only stdout) \<and>
            (path \<in> filepath ` set bad_files \<longleftrightarrow> \<not> whitespace_only stdout)"
      by (simp add: clean_def)
  qed
  have empty: "\<forall>good_file\<in>set good_files. misspelled_words good_file = []"
    by (auto simp: good)
  have nonempty: "\<forall>bad_file\<in>set bad_files. misspelled_words bad_file \<noteq> []"
    using ran by (auto simp: bad dest: stored_words_not_Nil)
  from each mg mb sg sb empty nonempty show ?thesis by auto
qed

theorem files_partitioned_witness:
  "map filepath [\<lparr>filepath = ''b.md'', misspelled_words = []\<rparr>] =
     filter (clean (sample_env two_files [''dict.txt''] wrold_engine) (sample_args ''dict.txt'')) [''a.md'', ''b.md''] \<and>
   map filepath [\<lparr>filepath = ''a.md'', misspelled_words = [''wrold'', ''wrold'']\<rparr>] =
     filter (\<lambda>path. \<not> clean (sample_env two_files [''dict.txt''] wrold_engine) (sample_args ''dict.txt'') path) [''a.md'', ''b.md'']"
  using files_partitioned [OF check_two_files] by blast

text \<open>The report and the exit status.\<close>

lemma print_bad_files_succeeds:
  "\<forall>bad_file\<in>set bad_files. \<exists>context.
      print_words_context env (filepath bad_file) (misspelled_words bad_file) = Inr context \<Longrightarrow>
   \<exists>out. print_bad_files env bad_files = Inr out"
  by (induction bad_files) (auto simp: print_bad_file_def)

lemma report_clean: "report env a good_files [] = Inr (print_good_files env good_files [], 0)"
  by (simp add: report_def)

lemma report_code:
  "bad_files \<noteq> [] \<Longrightarrow> report env a good_files bad_files = Inr (out, code) \<Longrightarrow> code = 1"
  by (auto simp: report_def split: sum.splits)

lemma report_succeeds:
  "bad_files \<noteq> [] \<Longrightarrow> print_bad_files env bad_files = Inr context \<Longrightarrow>
   \<exists>out. report env a good_files bad_files = Inr (out, 1)"
  by (simp add: report_def)

lemma main_eq:
  "check_files env a (glob env (files a)) [] [] = Inr (good_files, bad_files) \<Longrightarrow>
   main env a =
     (case report env a good_files bad_files of
        Inl e \<Rightarrow> Inl e
      | Inr (out, code) \<Rightarrow>
          Inr (wrap_print env (BOLD @ ''RUNNING SPELLCHECK'' @ RESET) TEXTWIDTH [NL, NL] # out, code))"
  by (simp add: main_def)

lemma exit_status_raised: "main env a = Inl e \<Longrightarrow> exit_status env a = 1"
  by (cases e) (simp_all add: exit_status_def)

lemma exit_status_returned: "main env a = Inr (out, code) \<Longrightarrow> exit_status env a = code"
  by (simp add: exit_status_def)

lemma some_words_iff:
  assumes "check_files env a filepaths [] [] = Inr (good_files, bad_files)"
  shows "(\<exists>f\<in>set (good_files @ bad_files). misspelled_words f \<noteq> []) \<longleftrightarrow> bad_files \<noteq> []"
proof -
  from check_files_acc [OF assms]
  have good: "good_files = map (\<lambda>path. \<lparr>filepath = path, misspelled_words = []\<rparr>)
                           (filter (clean env a) filepaths)"
    and bad: "bad_files = map (\<lambda>path. \<lparr>filepath = path, misspelled_words = stored_words env a path\<rparr>)
                           (filter (\<lambda>path. \<not> clean env a path) filepaths)"
    and ran: "\<forall>path\<in>set filepaths. \<exists>stdout. run_spellcheck env a path = Inr stdout"
    by simp_all
  have "\<forall>f\<in>set good_files. misspelled_words f = []"
    by (auto simp: good)
  moreover have "\<forall>f\<in>set bad_files. misspelled_words f \<noteq> []"
    using ran by (auto simp: bad dest: stored_words_not_Nil)
  ultimately show ?thesis
    by (cases bad_files) auto
qed

text \<open>
  Claim C1.  For a run whose loop over the files ends, the exit status is 1 if some
  checked file has a non-empty list of misspelled words and 0 if every checked file has
  an empty one.  In the second case \<open>main\<close> returns 0.  In the first case \<open>main\<close> returns
  nothing but 1, and it does return 1 when the context reporter succeeds on every bad
  file; when the reporter raises, the exception ends the script with the status 1.
\<close>

theorem exit_code_of_run:
  assumes "check_files env a (glob env (files a)) [] [] = Inr (good_files, bad_files)"
  shows "exit_status env a =
           (if \<exists>f\<in>set (good_files @ bad_files). misspelled_words f \<noteq> [] then 1 else 0) \<and>
         ((\<forall>f\<in>set (good_files @ bad_files). misspelled_words f = []) \<longrightarrow>
            (\<exists>out. main env a = Inr (out, 0))) \<and>
         ((\<exists>f\<in>set (good_files @ bad_files). misspelled_words f \<noteq> []) \<longrightarrow>
            (\<forall>out code. main env a = Inr (out, code) \<longrightarrow> code = 1) \<and>
            ((\<forall>bad_file\<in>set bad_files. \<exists>context.
                 print_words_context env (filepath bad_file) (misspelled_words bad_file) = Inr context) \<longrightarrow>
             (\<exists>out. main env a = Inr (out, 1))))"
proof (cases "bad_files = []")
  case True
  then have none: "\<not> (\<exists>f\<in>set (good_files @ bad_files). misspelled_words f \<noteq> [])"
    using some_words_iff [OF assms] by simp
  have "main env a = Inr (wrap_print env (BOLD @ ''RUNNING SPELLCHECK'' @ RESET) TEXTWIDTH [NL, NL] #
                           print_good_files env good_files [], 0)"
    using True by (simp add: main_eq [OF assms] report_clean)
  then show ?thesis
    using none by (auto simp: exit_status_def)
next
  case False
  then have some: "\<exists>f\<in>set (good_files @ bad_files). misspelled_words f \<noteq> []"
    using some_words_iff [OF assms] by simp
  have code: "\<forall>out code. main env a = Inr (out, code) \<longrightarrow> code = 1"
    using False by (auto simp: main_eq [OF assms] split: sum.splits dest: report_code)
  have status: "exit_status env a = 1"
  proof (cases "main env a")
    case (Inl e)
    then show ?thesis by (rule exit_status_raised)
  next
    case (Inr r)
    then show ?thesis using code by (cases r) (simp add: exit_status_def)
  qed
  have returns: "(\<forall>bad_file\<in>set bad_files. \<exists>context.
        print_words_context env (filepath bad_file) (misspelled_words bad_file) = Inr context) \<longrightarrow>
      (\<exists>out. main env a = Inr (out, 1))"
  proof
    assume "\<forall>bad_file\<in>set bad_files. \<exists>context.
        print_words_context env (filepath bad_file) (misspelled_words bad_file) = Inr context"
    then obtain ctx where "print_bad_files env bad_files = Inr ctx"
      using print_bad_files_succeeds by blast
    with False obtain out where "report env a good_files bad_files = Inr (out, 1)"
      using report_succeeds by blast
    then show "\<exists>out. main env a = Inr (out, 1)"
      by (simp add: main_eq [OF assms])
  qed
  from some code status returns show ?thesis by auto
qed

theorem exit_code_of_run_witness:
  "exit_status (sample_env two_files [''dict.txt''] wrold_engine) (sample_args ''dict.txt'') = 1 \<and>
   exit_status (sample_env [(''b.md'', fine_file)] [''dict.txt''] wrold_engine) (sample_args ''dict.txt'') = 0 \<and>
   (\<exists>out. main (sample_env [(''b.md'', fine_file)] [''dict.txt''] wrold_engine) (sample_args ''dict.txt'') = Inr (out, 0))"
proof -
  have c: "check_files (sample_env two_files [''dict.txt''] wrold_engine) (sample_args ''dict.txt'')
     (glob (sample_env two_files [''dict.txt''] wrold_engine) (files (sample_args ''dict.txt''))) [] [] =
   Inr ([\<lparr>filepath = ''b.md'', misspelled_words = []\<rparr>],
        [\<lparr>filepath = ''a.md'', misspelled_words = [''wrold'', ''wrold'']\<rparr>])"
    using check_two_files by (simp add: glob_two_files)
  show ?thesis
    using exit_code_of_run [OF c] exit_code_of_run [OF check_fine_file] by simp
qed

text \<open>The dictionary is looked at for the first file, after the file is pruned.\<close>

lemma prune_content_aspell: "prune_content (env\<lparr>aspell := run\<rparr>) path = prune_content env path"
  by (simp add: prune_content_def Let_def split: option.splits)

lemma prune_content_error: "prune_content env path = Inl e \<Longrightarrow> \<exists>m. e = SpellcheckError m"
  by (auto simp: prune_content_def Let_def split: if_splits option.splits)

lemma spellcheck_cmd_missing:
  "dictionary_path a = PyStr d \<Longrightarrow> d \<noteq> [] \<Longrightarrow> \<not> path_exists env d \<Longrightarrow>
   spellcheck_cmd env a = Inl (SpellcheckError DictionaryMissing)"
  by (simp add: spellcheck_cmd_def)

lemma run_spellcheck_missing:
  assumes "dictionary_path a = PyStr d" and "d \<noteq> []" and "\<not> path_exists env d"
  shows "run_spellcheck (env\<lparr>aspell := run\<rparr>) a path =
     (case prune_content env path of
        Inl e \<Rightarrow> Inl e
      | Inr pruned \<Rightarrow> Inl (SpellcheckError DictionaryMissing))"
proof -
  have "spellcheck_cmd (env\<lparr>aspell := run\<rparr>) a = Inl (SpellcheckError DictionaryMissing)"
    using assms by (intro spellcheck_cmd_missing) simp_all
  then show ?thesis
    by (simp add: run_spellcheck_def prune_content_aspell split: sum.splits)
qed

lemma main_missing:
  assumes "dictionary_path a = PyStr d" and "d \<noteq> []" and "\<not> path_exists env d"
    and "glob env (files a) = path # rest"
  shows "main (env\<lparr>aspell := run\<rparr>) a =
     (case prune_content env path of
        Inl e \<Rightarrow> Inl e
      | Inr pruned \<Rightarrow> Inl (SpellcheckError DictionaryMissing))"
  using assms(4) run_spellcheck_missing [OF assms(1-3), of run path]
  by (simp add: main_def split: sum.splits)

lemma main_no_files:
  "glob env (files a) = [] \<Longrightarrow>
   main env a = Inr ([wrap_print env (BOLD @ ''RUNNING SPELLCHECK'' @ RESET) TEXTWIDTH [NL, NL]], 0)"
  by (simp add: main_def report_def print_good_files_def)

text \<open>
  Claim C6, as amended.  Let the dictionary path be a non-empty string that names no
  existing file.  If the pattern matches at least one file, the run aborts with a
  \<open>SpellcheckError\<close> and the exit status 1, and the engine is not run on any file: the
  result does not depend on the engine.  The error is the one of the missing dictionary
  when the first file is pruned without error, and the error of that pruning when it
  fails.  If the pattern matches no file, the dictionary is not looked at and \<open>main\<close>
  returns 0.
\<close>

theorem missing_dictionary_aborts:
  assumes "dictionary_path a = PyStr d" and "d \<noteq> []" and "\<not> path_exists env d"
  shows "(\<forall>path rest. glob env (files a) = path # rest \<longrightarrow>
            (\<exists>m. main env a = Inl (SpellcheckError m)) \<and>
            exit_status env a = 1 \<and>
            (\<forall>run. main (env\<lparr>aspell := run\<rparr>) a = main env a) \<and>
            (\<forall>pruned. prune_content env path = Inr pruned \<longrightarrow>
               main env a = Inl (SpellcheckError DictionaryMissing)) \<and>
            (\<forall>e. prune_content env path = Inl e \<longrightarrow> main env a = Inl e)) \<and>
         (glob env (files a) = [] \<longrightarrow>
            main env a =
              Inr ([wrap_print env (BOLD @ ''RUNNING SPELLCHECK'' @ RESET) TEXTWIDTH [NL, NL]], 0) \<and>
            exit_status env a = 0)"
proof -
  have some_file: "(\<exists>m. main env a = Inl (SpellcheckError m)) \<and>
            exit_status env a = 1 \<and>
            (\<forall>run. main (env\<lparr>aspell := run\<rparr>) a = main env a) \<and>
            (\<forall>pruned. prune_content env path = Inr pruned \<longrightarrow>
               main env a = Inl (SpellcheckError DictionaryMissing)) \<and>
            (\<forall>e. prune_content env path = Inl e \<longrightarrow> main env a = Inl e)"
    if g: "glob env (files a) = path # rest" for path rest
  proof -
    have same: "main (env\<lparr>aspell := run\<rparr>) a =
       (case prune_content env path of
          Inl e \<Rightarrow> Inl e
        | Inr pruned \<Rightarrow> Inl (SpellcheckError DictionaryMissing))" for run
      using assms g by (rule main_missing)
    have "env\<lparr>aspell := aspell env\<rparr> = env" by simp
    with same [of "aspell env"]
    have m: "main env a =
       (case prune_content env path of
          Inl e \<Rightarrow> Inl e
        | Inr pruned \<Rightarrow> Inl (SpellcheckError DictionaryMissing))"
      by simp
    then have raised: "\<exists>m. main env a = Inl (SpellcheckError m)"
      by (auto split: sum.splits dest: prune_content_error)
    then have "exit_status env a = 1"
      by (auto dest: exit_status_raised)
    with raised same m show ?thesis
      by auto
  qed
  have no_file: "main env a =
              Inr ([wrap_print env (BOLD @ ''RUNNING SPELLCHECK'' @ RESET) TEXTWIDTH [NL, NL]], 0) \<and>
            exit_status env a = 0"
    if "glob env (files a) = []"
    using that by (simp add: main_no_files exit_status_def)
  from some_file no_file show ?thesis
    by blast
qed

theorem missing_dictionary_aborts_witness:
  "main (sample_env [(''a.md'', wrold_file)] [] wrold_engine) (sample_args ''missing.txt'') =
     Inl (SpellcheckError DictionaryMissing) \<and>
   exit_status (sample_env [(''a.md'', wrold_file)] [] wrold_engine) (sample_args ''missing.txt'') = 1 \<and>
   main no_converter_env (sample_args ''missing.txt'') = Inl (SpellcheckError (ToHtmlFailed ''a.md'')) \<and>
   exit_status (sample_env [] [] wrold_engine) (sample_args ''missing.txt'') = 0"
proof -
  let ?env = "sample_env [(''a.md'', wrold_file)] [] wrold_engine"
  let ?none = "sample_env [] [] wrold_engine"
  let ?a = "sample_args ''missing.txt''"
  have d: "dictionary_path ?a = PyStr ''missing.txt''"
    by (simp add: sample_args_def)
  have ne: "''missing.txt'' \<noteq> []"
    by simp
  have missing: "\<not> path_exists ?env ''missing.txt''"
    by (simp add: sample_env_def)
  have g: "glob ?env (files ?a) = ''a.md'' # []"
    by (simp add: sample_env_def)
  have p: "\<exists>pruned. prune_content ?env ''a.md'' = Inr pruned"
    by (simp add: prune_content_def sample_env_def Let_def)
  have first: "main ?env ?a = Inl (SpellcheckError DictionaryMissing) \<and> exit_status ?env ?a = 1"
    using missing_dictionary_aborts [OF d ne missing] g p by blast
  have missing': "\<not> path_exists no_converter_env ''missing.txt''"
    by (simp add: no_converter_env_def sample_env_def)
  have g': "glob no_converter_env (files ?a) = ''a.md'' # []"
    by (simp add: no_converter_env_def sample_env_def)
  have p': "prune_content no_converter_env ''a.md'' = Inl (SpellcheckError (ToHtmlFailed ''a.md''))"
    by (simp add: prune_content_def no_converter_env_def sample_env_def)
  have second: "main no_converter_env ?a = Inl (SpellcheckError (ToHtmlFailed ''a.md''))"
    using missing_dictionary_aborts [OF d ne missing'] g' p' by blast
  have missing'': "\<not> path_exists ?none ''missing.txt''"
    by (simp add: sample_env_def)
  have g'': "glob ?none (files ?a) = []"
    by (simp add: sample_env_def)
  have third: "exit_status ?none ?a = 0"
    using missing_dictionary_aborts [OF d ne missing''] g'' by blast
  from first second third show ?thesis
    by (intro conjI) simp_all
qed

text \<open>
  Claim C6 as stated fails when the pattern matches no file: the dictionary is never
  looked at, and the run returns 0.
\<close>

theorem no_files_no_dictionary_check:
  "dictionary_path (sample_args ''missing.txt'') = PyStr ''missing.txt'' \<and>
   \<not> path_exists (sample_env [] [] wrold_engine) ''missing.txt'' \<and>
   main (sample_env [] [] wrold_engine) (sample_args ''missing.txt'') =
     Inr ([BOLD @ ''RUNNING SPELLCHECK'' @ RESET @ [NL, NL]], 0) \<and>
   exit_status (sample_env [] [] wrold_engine) (sample_args ''missing.txt'') = 0"
  by code_simp








text \<open>The loop stops at the first file whose spellcheck raises.\<close>

lemma check_files_error:
  "\<forall>p\<in>set before. \<exists>stdout. run_spellcheck env a p = Inr stdout \<Longrightarrow>
   run_spellcheck env a path = Inl e \<Longrightarrow>
   check_files env a (before @ path # rest) good bad = Inl e"
  by (induction before arbitrary: good bad) (auto simp: Let_def)

text \<open>
  When the spellcheck of a file raises after the files before it were checked, \<open>main\<close>
  raises that error, whatever the files after it are, and the exit status is 1.
\<close>

theorem first_error_aborts:
  assumes "glob env (files a) = before @ path # rest"
    and "\<forall>p\<in>set before. \<exists>stdout. run_spellcheck env a p = Inr stdout"
    and "run_spellcheck env a path = Inl e"
  shows "main env a = Inl e \<and> exit_status env a = 1"
proof -
  have "check_files env a (glob env (files a)) [] [] = Inl e"
    unfolding assms(1) using assms(2,3) by (rule check_files_error)
  then have "main env a = Inl e"
    by (simp add: main_def)
  then show ?thesis
    by (simp add: exit_status_raised)
qed

theorem first_error_aborts_witness:
  "main failing_env (sample_args ''dict.txt'') =
     Inl (SpellcheckError (SpellcheckFailed ''a.md''
            [''aspell'', ''--home-dir'', ''.'', ''--mode'', ''markdown'', ''--lang'', ''en_US'',
             ''--personal'', ''dict.txt'', ''list'']
            ''aspell failed'')) \<and>
   exit_status failing_env (sample_args ''dict.txt'') = 1"
proof -
  let ?a = "sample_args ''dict.txt''"
  have g: "glob failing_env (files ?a) = [''b.md''] @ ''a.md'' # []"
    by (simp add: failing_env_def sample_env_def)
  have "run_spellcheck failing_env ?a ''b.md'' = Inr []"
    by code_simp
  then have ok: "\<forall>p\<in>set [''b.md'']. \<exists>stdout. run_spellcheck failing_env ?a p = Inr stdout"
    by simp
  have e: "run_spellcheck failing_env ?a ''a.md'' =
     Inl (SpellcheckError (SpellcheckFailed ''a.md''
            [''aspell'', ''--home-dir'', ''.'', ''--mode'', ''markdown'', ''--lang'', ''en_US'',
             ''--personal'', ''dict.txt'', ''list'']
            ''aspell failed''))"
    by code_simp
  show ?thesis
    using first_error_aborts [OF g ok e] .
qed

end
